theory Spec2Isabelle
  imports Main "HOL-Library.AList" "HOL-Library.Sublist"
begin

section \<open>JSON values and JavaScript objects\<close>

text \<open>
  The synthesizer of \<^verbatim>\<open>getVariablesJSONSchema.ts\<close> builds plain JavaScript objects.
  A JSON value is modelled generically; an object is an association list in insertion
  order, read with \<open>map_of\<close> and written with \<open>AList.update\<close> (an existing key keeps
  its position, a new key goes to the end, as a property assignment does).
  Numbers are only copied by the code, never computed with; they are integers here.
\<close>

datatype json =
    JNull
  | JBool bool
  | JNum int
  | JStr string
  | JArr "json list"
  | JObj "(string \<times> json) list"

type_synonym obj = "(string \<times> json) list"

text \<open>JavaScript truthiness of a JSON value, and of a property that may be absent.\<close>

fun truthy :: "json \<Rightarrow> bool" where
  "truthy JNull = False"
| "truthy (JBool b) = b"
| "truthy (JNum n) = (n \<noteq> 0)"
| "truthy (JStr s) = (s \<noteq> [])"
| "truthy (JArr xs) = True"
| "truthy (JObj kvs) = True"

definition prop_truthy :: "obj \<Rightarrow> string \<Rightarrow> bool" where
  "prop_truthy d k = (case map_of d k of None \<Rightarrow> False | Some v \<Rightarrow> truthy v)"

definition str_truthy :: "string option \<Rightarrow> bool" where
  "str_truthy s = (case s of None \<Rightarrow> False | Some x \<Rightarrow> x \<noteq> [])"

text \<open>The object spread \<^verbatim>\<open>{...a, ...b}\<close>: the properties of \<open>b\<close> assigned onto \<open>a\<close> in order.\<close>

definition obj_spread :: "obj \<Rightarrow> obj \<Rightarrow> obj" where
  "obj_spread a b = foldl (\<lambda>acc kv. AList.update (fst kv) (snd kv) acc) a b"

text \<open>
  String conversion, as \<^verbatim>\<open>+=\<close> on a string applies it to its left operand
  (line 325 appends to \<^verbatim>\<open>definition.description\<close>, which a caller's override may have
  set to any JSON value).
\<close>

fun digits :: "nat \<Rightarrow> string" where
  "digits n = (if n < 10 then [char_of (48 + n)] else digits (n div 10) @ [char_of (48 + n mod 10)])"

definition int_to_string :: "int \<Rightarrow> string" where
  "int_to_string i = (if i < 0 then ''-'' @ digits (nat (- i)) else digits (nat i))"

fun join_comma :: "string list \<Rightarrow> string" where
  "join_comma [] = []"
| "join_comma [s] = s"
| "join_comma (s # t # r) = s @ '','' @ join_comma (t # r)"

fun js_to_string :: "json \<Rightarrow> string" where
  "js_to_string JNull = ''null''"
| "js_to_string (JBool b) = (if b then ''true'' else ''false'')"
| "js_to_string (JNum n) = int_to_string n"
| "js_to_string (JStr s) = s"
| "js_to_string (JArr xs) = join_comma (map (\<lambda>x. if x = JNull then [] else js_to_string x) xs)"
| "js_to_string (JObj kvs) = ''[object Object]''"

section \<open>GraphQL input types\<close>

text \<open>
  A type reference is a scalar, an enum, an input object, a list or a non-null wrapper.
  Input-object types refer to each other by object reference and may form cycles, so a
  reference to one carries its name only and its body (description and fields) is read
  from the schema, an association list from type names to bodies. A name the schema
  does not bind reads as an input object without description and without fields.
  Type names identify types, as in a GraphQL schema.
\<close>

datatype gtype =
    Scalar string "string option"
  | Enum string "string option" "string list"
  | InputObject string
  | ListT gtype
  | NonNull gtype

record input_field =
  fname :: string
  fdescription :: "string option"
  ftype :: gtype
  fdefault :: "json option"

record input_object =
  odescription :: "string option"
  ofields :: "input_field list"

type_synonym schema = "(string \<times> input_object) list"

definition lookup_object :: "schema \<Rightarrow> string \<Rightarrow> input_object" where
  "lookup_object S n =
     (case map_of S n of Some ob \<Rightarrow> ob | None \<Rightarrow> \<lparr>odescription = None, ofields = []\<rparr>)"

text \<open>
  The \<^verbatim>\<open>JSONSchemaOptions\<close> of lines 41 to 50; an absent member reads as false, and as
  no override.
\<close>

record options =
  useMarkdownDescription :: bool
  customScalarSchemas :: "(string \<times> obj) list"

definition defaultJSONSchemaOptions :: options where
  "defaultJSONSchemaOptions = \<lparr>useMarkdownDescription = False, customScalarSchemas = []\<rparr>"

section \<open>Type renderer\<close>

text \<open>
  The renderer collects pieces in an array and joins them (lines 73 to 104);
  \<open>text_push\<close> is the source's function \<^verbatim>\<open>text\<close>.
\<close>

definition nl :: string where
  "nl = [CHR 0x0A]"

definition text_push :: "string list \<Rightarrow> string \<Rightarrow> string list" where
  "text_push into newText = into @ [newText]"

fun type_name :: "gtype \<Rightarrow> string" where
  "type_name (Scalar n d) = n"
| "type_name (Enum n d vs) = n"
| "type_name (InputObject n) = n"
| "type_name (ListT t) = []"
| "type_name (NonNull t) = []"

fun renderType :: "string list \<Rightarrow> gtype \<Rightarrow> string list" where
  "renderType into (NonNull t) = text_push (renderType into t) ''!''"
| "renderType into (ListT t) = text_push (renderType (text_push into ''['') t) '']''"
| "renderType into t = text_push into (type_name t)"

definition renderTypeToString :: "gtype \<Rightarrow> bool \<Rightarrow> string" where
  "renderTypeToString t useMarkdown =
     (let into0 = (if useMarkdown then text_push [] (''```graphql'' @ nl) else []);
          into1 = renderType into0 t;
          into2 = (if useMarkdown then text_push into1 (nl @ ''```'') else into1)
      in concat into2)"

text \<open>The renderer applied to a field: a field is neither non-null nor a list, so its name is rendered.\<close>

definition renderFieldToString :: "input_field \<Rightarrow> bool \<Rightarrow> string" where
  "renderFieldToString f useMarkdown =
     (let into0 = (if useMarkdown then text_push [] (''```graphql'' @ nl) else []);
          into1 = text_push into0 (fname f);
          into2 = (if useMarkdown then text_push into1 (nl @ ''```'') else into1)
      in concat into2)"

section \<open>Schema synthesizer\<close>

definition scalarTypesMap :: "string \<Rightarrow> string option" where
  "scalarTypesMap n =
     (if n = ''Int'' then Some ''integer''
      else if n = ''String'' then Some ''string''
      else if n = ''Float'' then Some ''number''
      else if n = ''ID'' then Some ''string''
      else if n = ''Boolean'' then Some ''boolean''
      else if n = ''DateTime'' then Some ''string''
      else None)"

text \<open>
  The table is a plain object, so the lookup \<^verbatim>\<open>scalarTypesMap[type.name]\<close> of line 157
  also finds the members every object inherits. For a scalar with such a name the
  type tag becomes a function, which is no JSON value: the model returns \<open>NotJSON\<close>
  for it and says nothing more about that run.
\<close>

definition inherited :: "string \<Rightarrow> bool" where
  "inherited n = (n \<in> set [''constructor'', ''hasOwnProperty'', ''isPrototypeOf'',
     ''propertyIsEnumerable'', ''toLocaleString'', ''toString'', ''valueOf'', ''__proto__'',
     ''__defineGetter__'', ''__defineSetter__'', ''__lookupGetter__'', ''__lookupSetter__''])"

text \<open>
  The marker's set in insertion order. \<open>mark\<close> adds a name only when it is absent, so
  every element of the list records one call of \<open>mark\<close> that returned true.
\<close>

type_synonym marker = "string list"

definition mark :: "string \<Rightarrow> marker \<Rightarrow> bool \<times> marker" where
  "mark n M = (if n \<in> set M then (False, M) else (True, M @ [n]))"

text \<open>
  A run ends with a result or with one of three outcomes: the fuel of the model ran
  out, the code threw a \<^verbatim>\<open>TypeError\<close>, or the value built is no JSON value.
\<close>

datatype error = OutOfFuel | TypeError | NotJSON

text \<open>The \<^verbatim>\<open>DefinitionResult\<close> of lines 67 to 71.\<close>

record definition_result =
  res_definition :: obj
  res_required :: bool
  res_definitions :: obj

definition null_alternative :: json where
  "null_alternative = JObj [(''type'', JStr ''null'')]"

definition ref_to :: "string \<Rightarrow> json" where
  "ref_to n = JStr (''#/definitions/'' @ n)"

text \<open>\<^verbatim>\<open>Array.isArray\<close> on a property that may be absent, with the elements.\<close>

fun array_of :: "json option \<Rightarrow> json list option" where
  "array_of (Some (JArr xs)) = Some xs"
| "array_of v = None"

text \<open>
  Lines 172 to 184: a custom scalar's fragment is broadened for a nullable occurrence.
  \<^verbatim>\<open>definition.oneOf.push\<close> on a truthy value that is not an array throws.
\<close>

definition broaden :: "obj \<Rightarrow> error + obj" where
  "broaden d =
     (case array_of (map_of d ''type'') of
        Some ts \<Rightarrow> Inr (AList.update ''type'' (JArr (ts @ [JStr ''null''])) d)
      | None \<Rightarrow>
          if prop_truthy d ''type''
          then Inr (AList.update ''type'' (JArr [the (map_of d ''type''), JStr ''null'']) d)
          else if prop_truthy d ''oneOf''
          then (case array_of (map_of d ''oneOf'') of
                  Some alts \<Rightarrow> Inr (AList.update ''oneOf'' (JArr (alts @ [null_alternative])) d)
                | None \<Rightarrow> Inl TypeError)
          else Inr [(''oneOf'', JArr [JObj d, null_alternative])])"

text \<open>
  Lines 155 to 186, the scalar branch. A built-in scalar gets its tag from the table.
  A custom scalar takes the caller's override (the deep clone of a JSON object is the
  same value) or the four default tags.
\<close>

definition scalar_definition :: "options \<Rightarrow> string \<Rightarrow> bool \<Rightarrow> error + obj" where
  "scalar_definition opts n isNonNull =
     (if inherited n then Inl NotJSON
      else case scalarTypesMap n of
        Some tag \<Rightarrow>
          Inr [(''type'', if isNonNull then JStr tag else JArr [JStr tag, JStr ''null''])]
      | None \<Rightarrow>
          (let d = (case map_of (customScalarSchemas opts) n of
                      Some ov \<Rightarrow> ov
                    | None \<Rightarrow> [(''type'', JArr [JStr ''string'', JStr ''number'',
                                                JStr ''boolean'', JStr ''integer''])])
           in if isNonNull then Inr d else broaden d))"

text \<open>
  Lines 306 to 338, the description backfill of a nullable occurrence. \<open>odesc\<close> is
  \<^verbatim>\<open>ofType.description\<close> when \<^verbatim>\<open>ofType\<close> has a description property and is not a
  scalar, \<open>plain\<close> and \<open>md\<close> are the two renderings of the type.
\<close>

definition backfill :: "options \<Rightarrow> string option \<Rightarrow> string \<Rightarrow> string \<Rightarrow> obj \<Rightarrow> obj" where
  "backfill opts odesc plain md d =
     (if str_truthy odesc \<and> \<not> prop_truthy d ''description'' then
        (let d1 = AList.update ''description'' (JStr (the odesc @ nl @ plain)) d
         in if useMarkdownDescription opts
            then AList.update ''markdownDescription'' (JStr (the odesc @ nl @ md)) d1
            else d1)
      else if prop_truthy d ''description'' then
        (let desc = js_to_string (the (map_of d ''description'')) @ nl @ plain;
             d1 = AList.update ''description'' (JStr desc) d
         in if useMarkdownDescription opts
            then AList.update ''markdownDescription'' (JStr (desc @ nl @ md)) d1
            else d1)
      else
        (let d1 = AList.update ''description'' (JStr plain) d
         in if useMarkdownDescription opts
            then AList.update ''markdownDescription'' (JStr md) d1
            else d1))"

text \<open>
  \<^verbatim>\<open>ofType.description\<close> as the first test of the backfill reads it: lists and non-null
  wrappers have no description property, scalars are excluded.
\<close>

fun backfill_description :: "schema \<Rightarrow> gtype \<Rightarrow> string option" where
  "backfill_description S (Enum n d vs) = d"
| "backfill_description S (InputObject n) = odescription (lookup_object S n)"
| "backfill_description S t = None"

definition ofType :: "gtype \<Rightarrow> gtype" where
  "ofType t = (case t of NonNull u \<Rightarrow> u | _ \<Rightarrow> t)"

definition finish :: "schema \<Rightarrow> options \<Rightarrow> gtype \<Rightarrow> bool \<Rightarrow> obj \<Rightarrow> obj" where
  "finish S opts t isNonNull d =
     (if isNonNull then d
      else backfill opts (backfill_description S (ofType t))
             (renderTypeToString t False) (renderTypeToString t True) d)"

text \<open>
  The synthesizer called on a field (line 272): none of the type tests holds for a
  field, so only the default value (lines 144 to 146) and the backfill run.
\<close>

definition getJSONSchemaFromGraphQLField :: "options \<Rightarrow> input_field \<Rightarrow> obj" where
  "getJSONSchemaFromGraphQLField opts f =
     backfill opts (fdescription f) (renderFieldToString f False) (renderFieldToString f True)
       (case fdefault f of None \<Rightarrow> [] | Some v \<Rightarrow> [(''default'', v)])"

text \<open>Lines 199 to 205: the item schema of a list.\<close>

definition list_items :: "obj \<Rightarrow> json" where
  "list_items def =
     (if prop_truthy def ''$ref'' then JObj [(''$ref'', the (map_of def ''$ref''))]
      else if prop_truthy def ''oneOf'' then JObj [(''oneOf'', the (map_of def ''oneOf''))]
      else JObj def)"

text \<open>Lines 274 to 291: the property of one field.\<close>

definition field_property :: "options \<Rightarrow> input_field \<Rightarrow> obj \<Rightarrow> obj" where
  "field_property opts f typeDefinition =
     (let p0 = obj_spread typeDefinition (getJSONSchemaFromGraphQLField opts f);
          renderedField = renderTypeToString (ftype f) False;
          p1 = AList.update ''description''
                 (JStr (if str_truthy (fdescription f)
                        then the (fdescription f) @ nl @ renderedField else renderedField)) p0
      in if useMarkdownDescription opts
         then (let renderedFieldMarkdown = renderTypeToString (ftype f) True
               in AList.update ''markdownDescription''
                    (JStr (if str_truthy (fdescription f)
                           then the (fdescription f) @ nl @ renderedFieldMarkdown
                           else renderedFieldMarkdown)) p1)
         else p1)"

text \<open>
  Lines 240 to 259 and 302: the object definition. The loop over the fields fills
  \<^verbatim>\<open>properties\<close> and \<^verbatim>\<open>required\<close> in place (lines 274 and 294); here the object is
  assembled from them after the loop, its members in the order the code creates them.
\<close>

definition object_definition :: "schema \<Rightarrow> options \<Rightarrow> string \<Rightarrow> obj \<Rightarrow> string list \<Rightarrow> obj" where
  "object_definition S opts n props req =
     (let t = InputObject n;
          od = odescription (lookup_object S n);
          fd = [(''type'', JStr ''object''), (''properties'', JObj props),
                (''required'', JArr (map JStr req))]
      in if str_truthy od then
           fd @ [(''description'', JStr (the od @ nl @ renderTypeToString t False))]
              @ (if useMarkdownDescription opts
                 then [(''markdownDescription'', JStr (the od @ nl @ renderTypeToString t True))]
                 else [])
         else
           fd @ [(''description'', JStr (renderTypeToString t False))]
              @ (if useMarkdownDescription opts
                 then [(''markdownDescription'', JStr (renderTypeToString t True))]
                 else []))"

text \<open>The results of the branches of \<^verbatim>\<open>getJSONSchemaFromGraphQLType\<close>.\<close>

definition enum_result :: "schema \<Rightarrow> options \<Rightarrow> string \<Rightarrow> string option \<Rightarrow> string list \<Rightarrow> bool
    \<Rightarrow> definition_result" where
  "enum_result S opts n d vs isNonNull =
     \<lparr>res_definition = finish S opts (Enum n d vs) isNonNull
        [(''enum'', JArr (map JStr vs @ (if isNonNull then [] else [JNull])))],
      res_required = False, res_definitions = []\<rparr>"

definition scalar_result :: "schema \<Rightarrow> options \<Rightarrow> string \<Rightarrow> string option \<Rightarrow> bool \<Rightarrow> obj
    \<Rightarrow> definition_result" where
  "scalar_result S opts n d isNonNull sd =
     \<lparr>res_definition = finish S opts (Scalar n d) isNonNull sd,
      res_required = False, res_definitions = []\<rparr>"

text \<open>Lines 188 to 211, given the result \<open>r\<close> of the call on the element type.\<close>

definition list_result :: "schema \<Rightarrow> options \<Rightarrow> gtype \<Rightarrow> bool \<Rightarrow> definition_result
    \<Rightarrow> definition_result" where
  "list_result S opts t isNonNull r =
     (let d0 = [(''type'', if isNonNull then JStr ''array''
                           else JArr [JStr ''array'', JStr ''null''])];
          d1 = AList.update ''items'' (list_items (res_definition r)) d0
      in \<lparr>res_definition = finish S opts (ListT t) isNonNull d1,
          res_required = False,
          res_definitions = obj_spread [] (res_definitions r)\<rparr>)"

text \<open>Lines 213 to 226, given the result \<open>r\<close> of the call on the wrapped type.\<close>

definition nonnull_result :: "schema \<Rightarrow> options \<Rightarrow> gtype \<Rightarrow> bool \<Rightarrow> definition_result
    \<Rightarrow> definition_result" where
  "nonnull_result S opts t isNonNull r =
     \<lparr>res_definition = finish S opts (NonNull t) isNonNull (res_definition r),
      res_required = True,
      res_definitions = obj_spread [] (res_definitions r)\<rparr>"

text \<open>Lines 229 to 236: the reference to an input object.\<close>

definition object_reference :: "string \<Rightarrow> bool \<Rightarrow> obj" where
  "object_reference n isNonNull =
     (if isNonNull then [(''$ref'', ref_to n)]
      else [(''oneOf'', JArr [JObj [(''$ref'', ref_to n)], null_alternative])])"

text \<open>An input object whose name was marked before: the reference only.\<close>

definition marked_result :: "schema \<Rightarrow> options \<Rightarrow> string \<Rightarrow> bool \<Rightarrow> definition_result" where
  "marked_result S opts n isNonNull =
     \<lparr>res_definition = finish S opts (InputObject n) isNonNull (object_reference n isNonNull),
      res_required = False, res_definitions = []\<rparr>"

text \<open>
  An input object marked by this call: the reference, and the definitions of the
  fields with the object's own definition stored under its name (line 302).
\<close>

definition object_result :: "schema \<Rightarrow> options \<Rightarrow> string \<Rightarrow> bool \<Rightarrow> obj \<Rightarrow> string list \<Rightarrow> obj
    \<Rightarrow> definition_result" where
  "object_result S opts n isNonNull props req defs =
     \<lparr>res_definition = finish S opts (InputObject n) isNonNull (object_reference n isNonNull),
      res_required = False,
      res_definitions = AList.update n (JObj (object_definition S opts n props req)) defs\<rparr>"

text \<open>
  One round of the loop over the fields (lines 261 to 301), given the result \<open>r\<close> of
  the call on the field's type: the properties, the required list and the definitions
  built so far are updated.
\<close>

type_synonym fields_state = "obj \<times> string list \<times> obj"

definition field_step :: "options \<Rightarrow> input_field \<Rightarrow> definition_result \<Rightarrow> fields_state \<Rightarrow> fields_state" where
  "field_step opts f r acc =
     (case acc of (props, req, defs) \<Rightarrow>
        (AList.update (fname f) (JObj (field_property opts f (res_definition r))) props,
         (if res_required r then req @ [fname f] else req),
         obj_spread defs (res_definitions r)))"

text \<open>
  The recursion of \<^verbatim>\<open>getJSONSchemaFromGraphQLType\<close>, with the marker passed in and
  returned. The fuel bounds the depth of nested calls; \<open>object_fields\<close> is the loop
  over the fields of an input object. A run that does not run out of fuel gives the
  same outcome with more fuel (lemma \<open>fuel_stable\<close>), and some fuel is always enough
  (lemma \<open>enough_fuel\<close>).
\<close>

fun getJSONSchemaFromGraphQLType ::
    "nat \<Rightarrow> schema \<Rightarrow> options \<Rightarrow> marker \<Rightarrow> gtype \<Rightarrow> bool \<Rightarrow> error + (definition_result \<times> marker)"
  and object_fields ::
    "nat \<Rightarrow> schema \<Rightarrow> options \<Rightarrow> marker \<Rightarrow> input_field list \<Rightarrow> fields_state
       \<Rightarrow> error + (fields_state \<times> marker)"
where
  "getJSONSchemaFromGraphQLType 0 S opts M t isNonNull = Inl OutOfFuel"
| "getJSONSchemaFromGraphQLType (Suc k) S opts M (Enum n d vs) isNonNull =
     Inr (enum_result S opts n d vs isNonNull, M)"
| "getJSONSchemaFromGraphQLType (Suc k) S opts M (Scalar n d) isNonNull =
     (case scalar_definition opts n isNonNull of
        Inl e \<Rightarrow> Inl e
      | Inr sd \<Rightarrow> Inr (scalar_result S opts n d isNonNull sd, M))"
| "getJSONSchemaFromGraphQLType (Suc k) S opts M (ListT t) isNonNull =
     (case getJSONSchemaFromGraphQLType k S opts M t False of
        Inl e \<Rightarrow> Inl e
      | Inr (r, M') \<Rightarrow> Inr (list_result S opts t isNonNull r, M'))"
| "getJSONSchemaFromGraphQLType (Suc k) S opts M (NonNull t) isNonNull =
     (case getJSONSchemaFromGraphQLType k S opts M t True of
        Inl e \<Rightarrow> Inl e
      | Inr (r, M') \<Rightarrow> Inr (nonnull_result S opts t isNonNull r, M'))"
| "getJSONSchemaFromGraphQLType (Suc k) S opts M (InputObject n) isNonNull =
     (if fst (mark n M) then
        (case object_fields k S opts (snd (mark n M)) (ofields (lookup_object S n)) ([], [], []) of
           Inl e \<Rightarrow> Inl e
         | Inr ((props, req, defs), M') \<Rightarrow>
             Inr (object_result S opts n isNonNull props req defs, M'))
      else Inr (marked_result S opts n isNonNull, snd (mark n M)))"
| "object_fields k S opts M [] acc = Inr (acc, M)"
| "object_fields k S opts M (f # fs) acc =
     (case getJSONSchemaFromGraphQLType k S opts M (ftype f) False of
        Inl e \<Rightarrow> Inl e
      | Inr (r, M') \<Rightarrow> object_fields k S opts M' fs (field_step opts f r acc))"

section \<open>Top-level aggregator\<close>

text \<open>
  The loop of lines 398 to 408 over the entries of the variable map. The state is the
  properties, the required list and the \<^verbatim>\<open>definitions\<close> member of the document
  (\<open>None\<close> while the key is absent), with the marker of the run.
\<close>

type_synonym doc_state = "obj \<times> string list \<times> obj option"

definition variable_step :: "string \<Rightarrow> definition_result \<Rightarrow> doc_state \<Rightarrow> doc_state" where
  "variable_step variableName r st =
     (case st of (props, req, defs) \<Rightarrow>
        (AList.update variableName (JObj (res_definition r)) props,
         (if res_required r then req @ [variableName] else req),
         Some (obj_spread (case defs of None \<Rightarrow> [] | Some ds \<Rightarrow> ds) (res_definitions r))))"

fun variables_loop ::
    "nat \<Rightarrow> schema \<Rightarrow> options \<Rightarrow> (string \<times> gtype) list \<Rightarrow> doc_state \<times> marker
       \<Rightarrow> error + (doc_state \<times> marker)"
where
  "variables_loop k S opts [] stM = Inr stM"
| "variables_loop k S opts (vt # vs) stM =
     (case getJSONSchemaFromGraphQLType k S opts (snd stM) (snd vt) False of
        Inl e \<Rightarrow> Inl e
      | Inr (r, M') \<Rightarrow> variables_loop k S opts vs (variable_step (fst vt) r (fst stM), M'))"

definition document :: "doc_state \<Rightarrow> obj" where
  "document st =
     (case st of (props, req, defs) \<Rightarrow>
        [(''$schema'', JStr ''https://json-schema.org/draft/2020-12/schema''),
         (''type'', JStr ''object''),
         (''properties'', JObj props),
         (''required'', JArr (map JStr req))]
        @ (case defs of None \<Rightarrow> [] | Some ds \<Rightarrow> [(''definitions'', JObj ds)]))"

definition initial_state :: "doc_state \<times> marker" where
  "initial_state = (([], [], None), [])"

definition getVariablesJSONSchema ::
    "nat \<Rightarrow> schema \<Rightarrow> (string \<times> gtype) list \<Rightarrow> options \<Rightarrow> error + obj" where
  "getVariablesJSONSchema k S variableToType opts =
     (case variables_loop k S opts variableToType initial_state of
        Inl e \<Rightarrow> Inl e
      | Inr (st, M) \<Rightarrow> Inr (document st))"

section \<open>Successful runs as derivations\<close>

text \<open>
  The runs of the synthesizer that return, as an inductive relation between the marker
  before, the type, the context, the result and the marker after. Every returning run
  of the functions above is a derivation (lemma \<open>run_synthesized\<close> below), so that
  properties of results are proved by rule induction.
\<close>

inductive synthesized ::
    "schema \<Rightarrow> options \<Rightarrow> marker \<Rightarrow> gtype \<Rightarrow> bool \<Rightarrow> definition_result \<Rightarrow> marker \<Rightarrow> bool"
  and fields_done ::
    "schema \<Rightarrow> options \<Rightarrow> marker \<Rightarrow> input_field list \<Rightarrow> fields_state \<Rightarrow> fields_state \<Rightarrow> marker \<Rightarrow> bool"
  for S :: schema and opts :: options
where
  s_enum: "synthesized S opts M (Enum n d vs) nn (enum_result S opts n d vs nn) M"
| s_scalar: "scalar_definition opts n nn = Inr sd
    \<Longrightarrow> synthesized S opts M (Scalar n d) nn (scalar_result S opts n d nn sd) M"
| s_list: "synthesized S opts M t False r M'
    \<Longrightarrow> synthesized S opts M (ListT t) nn (list_result S opts t nn r) M'"
| s_nonnull: "synthesized S opts M t True r M'
    \<Longrightarrow> synthesized S opts M (NonNull t) nn (nonnull_result S opts t nn r) M'"
| s_marked: "n \<in> set M
    \<Longrightarrow> synthesized S opts M (InputObject n) nn (marked_result S opts n nn) M"
| s_object: "n \<notin> set M
    \<Longrightarrow> fields_done S opts (M @ [n]) (ofields (lookup_object S n)) ([], [], []) (props, req, defs) M'
    \<Longrightarrow> synthesized S opts M (InputObject n) nn (object_result S opts n nn props req defs) M'"
| f_nil: "fields_done S opts M [] acc acc M"
| f_cons: "synthesized S opts M (ftype f) False r M1
    \<Longrightarrow> fields_done S opts M1 fs (field_step opts f r acc) acc' M'
    \<Longrightarrow> fields_done S opts M (f # fs) acc acc' M'"

section \<open>Notions the properties are stated with\<close>

text \<open>
  The schema fragments of a JSON value: the value itself when it is an object, and the
  fragments in the positions where the synthesizer puts schemas, namely under
  \<^verbatim>\<open>items\<close>, in the array under \<^verbatim>\<open>oneOf\<close>, and in the values of the objects under
  \<^verbatim>\<open>properties\<close> and \<^verbatim>\<open>definitions\<close>. With the flag false the value is such an
  array or object of fragments. Default values and enum values are data, not schemas.
\<close>

fun fragments :: "bool \<Rightarrow> json \<Rightarrow> obj list" where
  "fragments True (JObj kvs) =
     kvs # concat (map (\<lambda>kv. if fst kv = ''items'' then fragments True (snd kv)
                              else if fst kv = ''oneOf'' \<or> fst kv = ''properties''
                                      \<or> fst kv = ''definitions''
                              then fragments False (snd kv) else []) kvs)"
| "fragments False (JArr xs) = concat (map (fragments True) xs)"
| "fragments False (JObj kvs) = concat (map (\<lambda>kv. fragments True (snd kv)) kvs)"
| "fragments b v = []"

text \<open>The fragments below a member \<open>k\<close> with value \<open>v\<close>.\<close>

definition sub_at :: "string \<Rightarrow> json \<Rightarrow> obj list" where
  "sub_at k v =
     (if k = ''items'' then fragments True v
      else if k = ''oneOf'' \<or> k = ''properties'' \<or> k = ''definitions''
      then fragments False v else [])"

text \<open>Every fragment of a value, and every fragment strictly inside an object, satisfies \<open>P\<close>.\<close>

definition all_fragments :: "(obj \<Rightarrow> bool) \<Rightarrow> json \<Rightarrow> bool" where
  "all_fragments P v = list_all P (fragments True v)"

definition all_below :: "(obj \<Rightarrow> bool) \<Rightarrow> obj \<Rightarrow> bool" where
  "all_below P d = list_all (\<lambda>kv. list_all P (sub_at (fst kv) (snd kv))) d"

definition all_values :: "(obj \<Rightarrow> bool) \<Rightarrow> obj \<Rightarrow> bool" where
  "all_values P d = list_all (\<lambda>kv. all_fragments P (snd kv)) d"





text \<open>
  The null alternative of a fragment: \<^verbatim>\<open>null\<close> among the type tags, among the enum
  values, or as a \<^verbatim>\<open>{type: 'null'}\<close> branch of \<^verbatim>\<open>oneOf\<close>.
\<close>

definition has_null_alternative :: "obj \<Rightarrow> bool" where
  "has_null_alternative d =
     ((case map_of d ''type'' of Some (JArr ts) \<Rightarrow> JStr ''null'' \<in> set ts | _ \<Rightarrow> False)
      \<or> (case map_of d ''enum'' of Some (JArr vs) \<Rightarrow> JNull \<in> set vs | _ \<Rightarrow> False)
      \<or> (case map_of d ''oneOf'' of Some (JArr alts) \<Rightarrow> null_alternative \<in> set alts | _ \<Rightarrow> False))"

text \<open>A type that is not a non-null wrapper, as the element of a non-null wrapper is in GraphQL.\<close>

fun nullable :: "gtype \<Rightarrow> bool" where
  "nullable (NonNull t) = False"
| "nullable t = True"





text \<open>
  The input object named by a type under its list and non-null wrappers, and the names
  reachable from the variables through the fields of the schema.
\<close>

fun object_name :: "gtype \<Rightarrow> string option" where
  "object_name (InputObject n) = Some n"
| "object_name (ListT t) = object_name t"
| "object_name (NonNull t) = object_name t"
| "object_name t = None"

inductive reachable :: "schema \<Rightarrow> (string \<times> gtype) list \<Rightarrow> string \<Rightarrow> bool"
  for S :: schema and vars :: "(string \<times> gtype) list"
where
  r_variable: "vt \<in> set vars \<Longrightarrow> object_name (snd vt) = Some n \<Longrightarrow> reachable S vars n"
| r_field: "reachable S vars m \<Longrightarrow> f \<in> set (ofields (lookup_object S m))
    \<Longrightarrow> object_name (ftype f) = Some n \<Longrightarrow> reachable S vars n"

text \<open>
  Fuel that suffices: the wrappers of the type, and for every unmarked name of the
  schema the deepest field type of the schema.
\<close>

fun depth :: "gtype \<Rightarrow> nat" where
  "depth (ListT t) = Suc (depth t)"
| "depth (NonNull t) = Suc (depth t)"
| "depth t = 1"

definition field_depth :: "schema \<Rightarrow> nat" where
  "field_depth S =
     fold max (map (\<lambda>f. depth (ftype f)) (concat (map (\<lambda>e. ofields (snd e)) S))) 0"

definition unmarked :: "schema \<Rightarrow> marker \<Rightarrow> nat" where
  "unmarked S M = length (remdups (filter (\<lambda>n. n \<notin> set M) (map fst S)))"

definition enough :: "schema \<Rightarrow> marker \<Rightarrow> gtype \<Rightarrow> nat" where
  "enough S M t = depth t + field_depth S * unmarked S M"

definition enough_for :: "schema \<Rightarrow> (string \<times> gtype) list \<Rightarrow> nat" where
  "enough_for S vars = fold max (map (\<lambda>vt. depth (snd vt)) vars) 0 + field_depth S * unmarked S []"

text \<open>
  An override as its type declares it: a truthy \<^verbatim>\<open>oneOf\<close> is an array. With such
  overrides no run throws.
\<close>

definition array_oneOf :: "obj \<Rightarrow> bool" where
  "array_oneOf ov = (if prop_truthy ov ''oneOf'' then array_of (map_of ov ''oneOf'') \<noteq> None else True)"

text \<open>Reading a returned document along a path of member names.\<close>

fun path :: "string list \<Rightarrow> json \<Rightarrow> json option" where
  "path [] v = Some v"
| "path (k # ks) (JObj kvs) = (case map_of kvs k of None \<Rightarrow> None | Some v \<Rightarrow> path ks v)"
| "path (k # ks) v = None"

definition at_path :: "string list \<Rightarrow> error + obj \<Rightarrow> json option" where
  "at_path ks res = (case res of Inl e \<Rightarrow> None | Inr doc \<Rightarrow> path ks (JObj doc))"

text \<open>The schema of the scenario \<^verbatim>\<open>input Filter { self: Filter }\<close>.\<close>

definition filter_schema :: schema where
  "filter_schema =
     [(''Filter'', \<lparr>odescription = None,
         ofields = [\<lparr>fname = ''self'', fdescription = None,
                     ftype = InputObject ''Filter'', fdefault = None\<rparr>]\<rparr>)]"

text \<open>The definitions of a document state, none while the key is absent.\<close>

definition definitions_of :: "doc_state \<Rightarrow> obj" where
  "definitions_of st = (case snd (snd st) of None \<Rightarrow> [] | Some ds \<Rightarrow> ds)"






text \<open>
  The fields of the input objects named in \<open>A\<close> refer to input objects named in \<open>B\<close> only.
\<close>

definition closed_in :: "schema \<Rightarrow> string set \<Rightarrow> string set \<Rightarrow> bool" where
  "closed_in S A B =
     (\<forall>m \<in> A. \<forall>f \<in> set (ofields (lookup_object S m)). \<forall>n. object_name (ftype f) = Some n \<longrightarrow> n \<in> B)"

text \<open>Options with an override that allows \<^verbatim>\<open>null\<close> by itself.\<close>

definition null_options :: options where
  "null_options = \<lparr>useMarkdownDescription = False,
     customScalarSchemas = [(''JSON'', [(''type'', JArr [JStr ''object'', JStr ''null''])])]\<rparr>"

text \<open>The document state of the scenario with one variable \<open>f\<close> of type \<open>Filter\<close>.\<close>

definition filter_state :: doc_state where
  "filter_state =
     ([(''f'', JObj
          [(''oneOf'', JArr [JObj [(''$ref'', JStr ''#/definitions/Filter'')], JObj [(''type'', JStr ''null'')]]),
           (''description'', JStr ''Filter'')])],
      [],
      Some [(''Filter'', JObj
          [(''type'', JStr ''object''),
           (''properties'', JObj [(''self'', JObj
              [(''oneOf'', JArr [JObj [(''$ref'', JStr ''#/definitions/Filter'')], JObj [(''type'', JStr ''null'')]]),
               (''description'', JStr ''Filter'')])]),
           (''required'', JArr []),
           (''description'', JStr ''Filter'')])])"

section \<open>Runs and derivations\<close>

lemmas model_defs = getVariablesJSONSchema_def initial_state_def variable_step_def document_def
  broaden_def scalar_definition_def scalarTypesMap_def inherited_def finish_def backfill_def ofType_def prop_truthy_def
  str_truthy_def renderTypeToString_def text_push_def obj_spread_def enum_result_def
  scalar_result_def list_result_def nonnull_result_def object_reference_def marked_result_def
  object_result_def field_step_def mark_def list_items_def field_property_def
  object_definition_def getJSONSchemaFromGraphQLField_def renderFieldToString_def
  lookup_object_def null_alternative_def ref_to_def at_path_def

lemma run_synthesized:
  "getJSONSchemaFromGraphQLType k S opts M t nn = Inr (r, M') \<Longrightarrow> synthesized S opts M t nn r M'"
  "object_fields k S opts M fs acc = Inr (acc', M') \<Longrightarrow> fields_done S opts M fs acc acc' M'"
proof (induction k S opts M t nn and k S opts M fs acc arbitrary: r M' and acc' M'
       rule: getJSONSchemaFromGraphQLType_object_fields.induct)
  case (1 S opts M t isNonNull)
  then show ?case by simp
next
  case (2 k S opts M n d vs isNonNull)
  then show ?case by (auto intro: s_enum)
next
  case (3 k S opts M n d isNonNull)
  then show ?case by (auto split: sum.splits intro: s_scalar)
next
  case (4 k S opts M t isNonNull)
  then show ?case by (auto split: sum.splits intro: s_list)
next
  case (5 k S opts M t isNonNull)
  then show ?case by (auto split: sum.splits intro: s_nonnull)
next
  case (6 k S opts M n isNonNull)
  show ?case
  proof (cases "n \<in> set M")
    case True
    with 6(2) show ?thesis by (auto simp: mark_def intro: s_marked)
  next
    case False
    with 6(2) obtain props req defs where
      run: "object_fields k S opts (M @ [n]) (ofields (lookup_object S n)) ([], [], [])
              = Inr ((props, req, defs), M')"
      and r: "r = object_result S opts n isNonNull props req defs"
      by (auto simp: mark_def split: sum.splits)
    from False have "fst (mark n M)" and "snd (mark n M) = M @ [n]"
      by (simp_all add: mark_def)
    with 6(1) run
    have "fields_done S opts (M @ [n]) (ofields (lookup_object S n)) ([], [], []) (props, req, defs) M'"
      by simp
    with False r show ?thesis by (auto intro: s_object)
  qed
next
  case (7 k S opts M acc)
  then show ?case by (auto intro: f_nil)
next
  case (8 k S opts M f fs acc)
  from 8(3) obtain r1 M1 where
    first: "getJSONSchemaFromGraphQLType k S opts M (ftype f) False = Inr (r1, M1)"
    and rest: "object_fields k S opts M1 fs (field_step opts f r1 acc) = Inr (acc', M')"
    by (auto split: sum.splits)
  from 8(1) [OF first] have a: "synthesized S opts M (ftype f) False r1 M1" .
  from 8(2) [OF first refl rest]
  have b: "fields_done S opts M1 fs (field_step opts f r1 acc) acc' M'" .
  from a b show ?case by (rule f_cons)
qed

section \<open>Objects\<close>


lemma keys_update: "fst ` set (AList.update k v d) = insert k (fst ` set d)"
  by (induction d) auto

lemma obj_spread_Nil [simp]: "obj_spread a [] = a"
  by (simp add: obj_spread_def)

lemma obj_spread_Cons [simp]:
  "obj_spread a (kv # b) = obj_spread (AList.update (fst kv) (snd kv) a) b"
  by (simp add: obj_spread_def)


lemma keys_obj_spread: "fst ` set (obj_spread a b) = fst ` set a \<union> fst ` set b"
  by (induction b arbitrary: a) (auto simp: keys_update)

lemma distinct_obj_spread: "distinct (map fst a) \<Longrightarrow> distinct (map fst (obj_spread a b))"
  by (induction b arbitrary: a) (auto simp: distinct_update)

section \<open>The marker\<close>

lemma marker_grows:
  "synthesized S opts M t nn r M' \<Longrightarrow> set M \<subseteq> set M'"
  "fields_done S opts M fs acc acc' M' \<Longrightarrow> set M \<subseteq> set M'"
  by (induction rule: synthesized_fields_done.inducts) auto

lemma marker_distinct:
  "synthesized S opts M t nn r M' \<Longrightarrow> distinct M \<Longrightarrow> distinct M'"
  "fields_done S opts M fs acc acc' M' \<Longrightarrow> distinct M \<Longrightarrow> distinct M'"
  by (induction rule: synthesized_fields_done.inducts) auto

lemma res_definitions_simps [simp]:
  "res_definitions (enum_result S opts n d vs nn) = []"
  "res_definitions (scalar_result S opts n d nn sd) = []"
  "res_definitions (list_result S opts t nn r) = obj_spread [] (res_definitions r)"
  "res_definitions (nonnull_result S opts t nn r) = obj_spread [] (res_definitions r)"
  "res_definitions (marked_result S opts n nn) = []"
  "res_definitions (object_result S opts n nn props req defs) =
     AList.update n (JObj (object_definition S opts n props req)) defs"
  by (simp_all add: enum_result_def scalar_result_def list_result_def nonnull_result_def
      marked_result_def object_result_def Let_def)

lemma field_step_defs [simp]:
  "snd (snd (field_step opts f r acc)) = obj_spread (snd (snd acc)) (res_definitions r)"
  by (simp add: field_step_def split: prod.splits)

lemma definitions_keys:
  "synthesized S opts M t nn r M' \<Longrightarrow> fst ` set (res_definitions r) = set M' - set M"
  "fields_done S opts M fs acc acc' M'
     \<Longrightarrow> fst ` set (snd (snd acc')) = fst ` set (snd (snd acc)) \<union> (set M' - set M)"
proof (induction rule: synthesized_fields_done.inducts)
  case (s_object n M props req defs M' nn)
  from s_object(2) have "set (M @ [n]) \<subseteq> set M'" by (rule marker_grows)
  with s_object show ?case by (auto simp: keys_update)
next
  case (f_cons M f r M1 fs acc acc' M')
  from f_cons(1) have "set M \<subseteq> set M1" by (rule marker_grows)
  moreover from f_cons(3) have "set M1 \<subseteq> set M'" by (rule marker_grows)
  ultimately show ?case using f_cons by (auto simp: keys_obj_spread)
qed (auto simp: keys_obj_spread)

section \<open>Fuel\<close>

lemma depth_pos: "0 < depth t"
  by (induction t) auto

lemma fold_max_start: "b \<le> fold max ys (b::nat)"
proof (induction ys arbitrary: b)
  case Nil
  then show ?case by simp
next
  case (Cons y ys)
  have "b \<le> max y b" by simp
  also have "\<dots> \<le> fold max ys (max y b)" by (rule Cons.IH)
  finally show ?case by simp
qed

lemma fold_max_ge: "x \<in> set xs \<Longrightarrow> x \<le> fold max xs (a::nat)"
proof (induction xs arbitrary: a)
  case Nil
  then show ?case by simp
next
  case (Cons y ys)
  show ?case
  proof (cases "x = y")
    case True
    have "y \<le> max y a" by simp
    also have "\<dots> \<le> fold max ys (max y a)" by (rule fold_max_start)
    finally show ?thesis using True by simp
  next
    case False
    with Cons.prems have "x \<in> set ys" by simp
    then show ?thesis using Cons.IH by simp
  qed
qed

lemma field_depth_ge:
  assumes "f \<in> set (ofields (lookup_object S n))"
  shows "depth (ftype f) \<le> field_depth S"
proof -
  from assms obtain ob where ob: "map_of S n = Some ob" and f: "f \<in> set (ofields ob)"
    by (auto simp: lookup_object_def split: option.splits)
  from ob have "(n, ob) \<in> set S" by (rule map_of_SomeD)
  with f have "depth (ftype f) \<in> set (map (\<lambda>f. depth (ftype f)) (concat (map (\<lambda>e. ofields (snd e)) S)))"
    by force
  then show ?thesis unfolding field_depth_def by (rule fold_max_ge)
qed

lemma unmarked_card: "unmarked S M = card (fst ` set S - set M)"
proof -
  have "set (filter (\<lambda>n. n \<notin> set M) (map fst S)) = fst ` set S - set M" by auto
  then show ?thesis
    unfolding unmarked_def by (simp add: length_remdups_card_conv)
qed

lemma unmarked_mono: "set M \<subseteq> set M' \<Longrightarrow> unmarked S M' \<le> unmarked S M"
  unfolding unmarked_card by (rule card_mono) auto

lemma unmarked_mark:
  assumes "n \<notin> set M" and "n \<in> fst ` set S"
  shows "unmarked S M = Suc (unmarked S (M @ [n]))"
proof -
  let ?A = "fst ` set S - set M"
  have fin: "finite ?A" by simp
  from assms have mem: "n \<in> ?A" by simp
  have eq: "fst ` set S - set (M @ [n]) = ?A - {n}" by auto
  from fin mem have "card ?A = Suc (card (?A - {n}))" by (rule card.remove)
  then show ?thesis
    unfolding unmarked_card eq .
qed

lemma lookup_unbound:
  assumes "n \<notin> fst ` set S"
  shows "ofields (lookup_object S n) = []"
proof -
  from assms have "map_of S n = None" by (simp add: map_of_eq_None_iff)
  then show ?thesis by (simp add: lookup_object_def)
qed

lemma broaden_fuel: "broaden d \<noteq> Inl OutOfFuel"
  by (simp add: broaden_def split: option.splits)

lemma scalar_definition_fuel: "scalar_definition opts n nn \<noteq> Inl OutOfFuel"
  by (simp add: scalar_definition_def Let_def broaden_fuel split: option.splits)

lemma synthesized_run:
  "getJSONSchemaFromGraphQLType k S opts M t nn = Inr (r, M') \<Longrightarrow> set M \<subseteq> set M'"
  by (rule marker_grows(1) [OF run_synthesized(1)])


lemma enough_fuel:
  "enough S M t \<le> k \<Longrightarrow> getJSONSchemaFromGraphQLType k S opts M t nn \<noteq> Inl OutOfFuel"
  "(\<forall>f \<in> set fs. depth (ftype f) \<le> field_depth S)
     \<Longrightarrow> fs = [] \<or> field_depth S + field_depth S * unmarked S M \<le> k
     \<Longrightarrow> object_fields k S opts M fs acc \<noteq> Inl OutOfFuel"
proof (induction k S opts M t nn and k S opts M fs acc
       rule: getJSONSchemaFromGraphQLType_object_fields.induct)
  case (1 S opts M t isNonNull)
  then show ?case using depth_pos [of t] by (simp add: enough_def)
next
  case (2 k S opts M n d vs isNonNull)
  then show ?case by simp
next
  case (3 k S opts M n d isNonNull)
  then show ?case
    using scalar_definition_fuel [of opts n isNonNull] by (auto split: sum.splits)
next
  case (4 k S opts M t isNonNull)
  then show ?case by (auto simp: enough_def split: sum.splits)
next
  case (5 k S opts M t isNonNull)
  then show ?case by (auto simp: enough_def split: sum.splits)
next
  case (6 k S opts M n isNonNull)
  show ?case
  proof (cases "n \<in> set M")
    case True
    then show ?thesis by (simp add: mark_def)
  next
    case False
    then have m: "fst (mark n M)" "snd (mark n M) = M @ [n]" by (simp_all add: mark_def)
    have fs: "\<forall>f \<in> set (ofields (lookup_object S n)). depth (ftype f) \<le> field_depth S"
      by (auto intro: field_depth_ge)
    have "ofields (lookup_object S n) = []
          \<or> field_depth S + field_depth S * unmarked S (M @ [n]) \<le> k"
    proof (cases "n \<in> fst ` set S")
      case True
      from unmarked_mark [OF False True] 6(2) show ?thesis by (simp add: enough_def)
    next
      case False
      then show ?thesis by (simp add: lookup_unbound)
    qed
    with 6(1) [OF m(1)] fs m(2)
    have "object_fields k S opts (M @ [n]) (ofields (lookup_object S n)) ([], [], []) \<noteq> Inl OutOfFuel"
      by simp
    with m show ?thesis by (auto split: sum.splits)
  qed
next
  case (7 k S opts M acc)
  then show ?case by simp
next
  case (8 k S opts M f fs acc)
  from 8(3) have df: "depth (ftype f) \<le> field_depth S" and rest: "\<forall>f \<in> set fs. depth (ftype f) \<le> field_depth S"
    by simp_all
  from 8(4) have k: "field_depth S + field_depth S * unmarked S M \<le> k" by simp
  with df have "enough S M (ftype f) \<le> k" by (simp add: enough_def)
  from 8(1) [OF this] have first: "getJSONSchemaFromGraphQLType k S opts M (ftype f) False \<noteq> Inl OutOfFuel" .
  show ?case
  proof (cases "getJSONSchemaFromGraphQLType k S opts M (ftype f) False")
    case (Inl e)
    with first show ?thesis by simp
  next
    case (Inr p)
    obtain r M1 where p: "p = (r, M1)" by (cases p)
    from Inr p have "set M \<subseteq> set M1"
      using synthesized_run [of k S opts M "ftype f" False r M1] by simp
    then have "unmarked S M1 \<le> unmarked S M" by (rule unmarked_mono)
    then have "field_depth S * unmarked S M1 \<le> field_depth S * unmarked S M"
      by (rule mult_le_mono2)
    with k have "field_depth S + field_depth S * unmarked S M1 \<le> k" by linarith
    then have "fs = [] \<or> field_depth S + field_depth S * unmarked S M1 \<le> k" ..
    from 8(2) [OF Inr p [symmetric] rest this] Inr p show ?thesis by simp
  qed
qed


lemma fuel_stable:
  "getJSONSchemaFromGraphQLType k S opts M t nn \<noteq> Inl OutOfFuel
     \<Longrightarrow> getJSONSchemaFromGraphQLType (Suc k) S opts M t nn = getJSONSchemaFromGraphQLType k S opts M t nn"
  "object_fields k S opts M fs acc \<noteq> Inl OutOfFuel
     \<Longrightarrow> object_fields (Suc k) S opts M fs acc = object_fields k S opts M fs acc"
proof (induction k S opts M t nn and k S opts M fs acc
       rule: getJSONSchemaFromGraphQLType_object_fields.induct)
  case (1 S opts M t isNonNull)
  then show ?case by simp
next
  case (2 k S opts M n d vs isNonNull)
  then show ?case by simp
next
  case (3 k S opts M n d isNonNull)
  then show ?case by simp
next
  case (4 k S opts M t isNonNull)
  from 4(2) have "getJSONSchemaFromGraphQLType k S opts M t False \<noteq> Inl OutOfFuel"
    by (auto split: sum.splits)
  from 4(1) [OF this] show ?case by simp
next
  case (5 k S opts M t isNonNull)
  from 5(2) have "getJSONSchemaFromGraphQLType k S opts M t True \<noteq> Inl OutOfFuel"
    by (auto split: sum.splits)
  from 5(1) [OF this] show ?case by simp
next
  case (6 k S opts M n isNonNull)
  show ?case
  proof (cases "fst (mark n M)")
    case True
    with 6(2) have "object_fields k S opts (snd (mark n M)) (ofields (lookup_object S n)) ([], [], [])
        \<noteq> Inl OutOfFuel"
      by (auto split: sum.splits)
    from 6(1) [OF True this] True show ?thesis by simp
  next
    case False
    then show ?thesis by simp
  qed
next
  case (7 k S opts M acc)
  then show ?case by simp
next
  case (8 k S opts M f fs acc)
  from 8(3) have first: "getJSONSchemaFromGraphQLType k S opts M (ftype f) False \<noteq> Inl OutOfFuel"
    by (auto split: sum.splits)
  note up = 8(1) [OF first]
  show ?case
  proof (cases "getJSONSchemaFromGraphQLType k S opts M (ftype f) False")
    case (Inl e)
    with up show ?thesis by simp
  next
    case (Inr p)
    obtain r M1 where p: "p = (r, M1)" by (cases p)
    from 8(3) Inr p have "object_fields k S opts M1 fs (field_step opts f r acc) \<noteq> Inl OutOfFuel"
      by simp
    from 8(2) [OF Inr p [symmetric] this] up Inr p show ?thesis by simp
  qed
qed

lemma enough_mono: "set M \<subseteq> set M' \<Longrightarrow> enough S M' t \<le> enough S M t"
  unfolding enough_def using mult_le_mono2 [OF unmarked_mono] by simp

lemma variables_fuel:
  "\<forall>vt \<in> set vs. enough S (snd stM) (snd vt) \<le> k
     \<Longrightarrow> variables_loop k S opts vs stM \<noteq> Inl OutOfFuel"
proof (induction vs arbitrary: stM)
  case Nil
  then show ?case by simp
next
  case (Cons vt vs)
  from Cons.prems have "enough S (snd stM) (snd vt) \<le> k" by simp
  then have first: "getJSONSchemaFromGraphQLType k S opts (snd stM) (snd vt) False \<noteq> Inl OutOfFuel"
    by (rule enough_fuel(1))
  show ?case
  proof (cases "getJSONSchemaFromGraphQLType k S opts (snd stM) (snd vt) False")
    case (Inl e)
    with first show ?thesis by simp
  next
    case (Inr p)
    obtain r M1 where p: "p = (r, M1)" by (cases p)
    from Inr p have sub: "set (snd stM) \<subseteq> set M1"
      using synthesized_run [of k S opts "snd stM" "snd vt" False r M1] by simp
    have "\<forall>vt' \<in> set vs. enough S (snd (variable_step (fst vt) r (fst stM), M1)) (snd vt') \<le> k"
    proof
      fix vt' assume "vt' \<in> set vs"
      with Cons.prems have "enough S (snd stM) (snd vt') \<le> k" by simp
      with enough_mono [OF sub, of S "snd vt'"] show "enough S (snd (variable_step (fst vt) r (fst stM), M1)) (snd vt') \<le> k"
        by simp
    qed
    from Cons.IH [OF this] Inr p show ?thesis by simp
  qed
qed

lemma document_fuel:
  assumes "enough_for S vars \<le> k"
  shows "getVariablesJSONSchema k S vars opts \<noteq> Inl OutOfFuel"
proof -
  have "\<forall>vt \<in> set vars. enough S (snd initial_state) (snd vt) \<le> k"
  proof
    fix vt assume "vt \<in> set vars"
    then have "depth (snd vt) \<in> set (map (\<lambda>vt. depth (snd vt)) vars)" by simp
    then have "depth (snd vt) \<le> fold max (map (\<lambda>vt. depth (snd vt)) vars) 0"
      by (rule fold_max_ge)
    with assms show "enough S (snd initial_state) (snd vt) \<le> k"
      by (simp add: enough_for_def enough_def initial_state_def)
  qed
  then have "variables_loop k S opts vars initial_state \<noteq> Inl OutOfFuel"
    by (rule variables_fuel)
  then show ?thesis
    by (auto simp: getVariablesJSONSchema_def split: sum.splits)
qed

lemma broaden_typed: "array_oneOf d \<Longrightarrow> broaden d \<noteq> Inl TypeError"
  by (auto simp: broaden_def array_oneOf_def split: option.splits)

lemma scalar_definition_typed:
  assumes "\<forall>ov \<in> snd ` set (customScalarSchemas opts). array_oneOf ov"
  shows "scalar_definition opts n nn \<noteq> Inl TypeError"
proof (cases "map_of (customScalarSchemas opts) n")
  case None
  then show ?thesis
    by (simp add: scalar_definition_def Let_def broaden_def prop_truthy_def split: option.splits)
next
  case (Some ov)
  then have "(n, ov) \<in> set (customScalarSchemas opts)" by (rule map_of_SomeD)
  then have "ov \<in> snd ` set (customScalarSchemas opts)" by force
  with assms have "array_oneOf ov" by blast
  then have "broaden ov \<noteq> Inl TypeError" by (rule broaden_typed)
  with Some show ?thesis
    by (simp add: scalar_definition_def Let_def split: option.splits)
qed

lemma no_type_error:
  "\<forall>ov \<in> snd ` set (customScalarSchemas opts). array_oneOf ov
     \<Longrightarrow> getJSONSchemaFromGraphQLType k S opts M t nn \<noteq> Inl TypeError"
  "\<forall>ov \<in> snd ` set (customScalarSchemas opts). array_oneOf ov
     \<Longrightarrow> object_fields k S opts M fs acc \<noteq> Inl TypeError"
proof (induction k S opts M t nn and k S opts M fs acc
       rule: getJSONSchemaFromGraphQLType_object_fields.induct)
  case (3 k S opts M n d isNonNull)
  then show ?case
    using scalar_definition_typed [of opts n isNonNull] by (auto split: sum.splits)
next
  case (6 k S opts M n isNonNull)
  then show ?case by (auto split: sum.splits)
next
  case (8 k S opts M f fs acc)
  show ?case
  proof (cases "getJSONSchemaFromGraphQLType k S opts M (ftype f) False")
    case (Inl e)
    with 8(1) [OF 8(3)] show ?thesis by simp
  next
    case (Inr p)
    obtain r M1 where p: "p = (r, M1)" by (cases p)
    from 8(2) [OF Inr p [symmetric] 8(3)] Inr p show ?thesis by simp
  qed
qed (auto split: sum.splits)

section \<open>Members of fragments and documents\<close>

lemma map_of_backfill:
  "k \<noteq> ''description'' \<Longrightarrow> k \<noteq> ''markdownDescription''
     \<Longrightarrow> map_of (backfill opts od p m d) k = map_of d k"
  by (simp add: backfill_def Let_def update_conv')

lemma map_of_finish:
  "k \<noteq> ''description'' \<Longrightarrow> k \<noteq> ''markdownDescription''
     \<Longrightarrow> map_of (finish S opts t nn d) k = map_of d k"
  by (simp add: finish_def map_of_backfill)

lemma variables_loop_definitions:
  "variables_loop k S opts vs stM = Inr (st', M')
     \<Longrightarrow> (snd (snd st') = None) = (snd (snd (fst stM)) = None \<and> vs = [])"
proof (induction vs arbitrary: stM)
  case Nil
  then show ?case by auto
next
  case (Cons vt vs)
  from Cons.prems obtain r M1 where
    rest: "variables_loop k S opts vs (variable_step (fst vt) r (fst stM), M1) = Inr (st', M')"
    by (auto split: sum.splits)
  from Cons.IH [OF rest] show ?case
    by (simp add: variable_step_def split: prod.splits)
qed

section \<open>Fragments\<close>



lemma sub_at_plain [simp]:
  "k \<noteq> ''items'' \<Longrightarrow> k \<noteq> ''oneOf'' \<Longrightarrow> k \<noteq> ''properties'' \<Longrightarrow> k \<noteq> ''definitions''
     \<Longrightarrow> sub_at k v = []"
  by (simp add: sub_at_def)

lemma list_all_sub_at_items [simp]: "list_all P (sub_at ''items'' v) = all_fragments P v"
  by (simp add: sub_at_def all_fragments_def)

lemma list_all_sub_at_oneOf [simp]:
  "list_all P (sub_at ''oneOf'' (JArr xs)) = list_all (all_fragments P) xs"
  by (simp add: sub_at_def all_fragments_def list_all_iff)

lemma list_all_sub_at_properties [simp]:
  "list_all P (sub_at ''properties'' (JObj d)) = all_values P d"
  by (simp add: sub_at_def all_values_def all_fragments_def list_all_iff)

lemma list_all_sub_at_definitions [simp]:
  "list_all P (sub_at ''definitions'' (JObj d)) = all_values P d"
  by (simp add: sub_at_def all_values_def all_fragments_def list_all_iff)

declare fragments.simps [simp del]

lemma all_below_Nil [simp]: "all_below P []"
  by (simp add: all_below_def)

lemma all_below_Cons [simp]:
  "all_below P (kv # d) = (list_all P (sub_at (fst kv) (snd kv)) \<and> all_below P d)"
  by (simp add: all_below_def)

lemma all_below_append [simp]: "all_below P (a @ b) = (all_below P a \<and> all_below P b)"
  by (simp add: all_below_def)



lemma all_values_Nil [simp]: "all_values P []"
  by (simp add: all_values_def)











section \<open>Properties of all fragments\<close>



















lemma res_definition_simps [simp]:
  "res_definition (enum_result S opts n d vs nn) =
     finish S opts (Enum n d vs) nn [(''enum'', JArr (map JStr vs @ (if nn then [] else [JNull])))]"
  "res_definition (scalar_result S opts n d nn sd) = finish S opts (Scalar n d) nn sd"
  "res_definition (list_result S opts t nn r) =
     finish S opts (ListT t) nn
       [(''type'', if nn then JStr ''array'' else JArr [JStr ''array'', JStr ''null'']),
        (''items'', list_items (res_definition r))]"
  "res_definition (nonnull_result S opts t nn r) = finish S opts (NonNull t) nn (res_definition r)"
  "res_definition (marked_result S opts n nn) = finish S opts (InputObject n) nn (object_reference n nn)"
  "res_definition (object_result S opts n nn props req defs) =
     finish S opts (InputObject n) nn (object_reference n nn)"
  by (simp_all add: enum_result_def scalar_result_def list_result_def nonnull_result_def
      marked_result_def object_result_def Let_def)

lemma field_step_props [simp]:
  "fst (field_step opts f r acc) =
     AList.update (fname f) (JObj (field_property opts f (res_definition r))) (fst acc)"
  by (simp add: field_step_def split: prod.splits)



section \<open>The loop over the variables\<close>

lemma variable_step_simps [simp]:
  "fst (variable_step v r st) = AList.update v (JObj (res_definition r)) (fst st)"
  "snd (snd (variable_step v r st)) =
     Some (obj_spread (case snd (snd st) of None \<Rightarrow> [] | Some ds \<Rightarrow> ds) (res_definitions r))"
  by (simp_all add: variable_step_def split: prod.splits)

lemma variables_loop_Cons:
  assumes "variables_loop k S opts (vt # vs) stM = Inr (st', M')"
  obtains r M1 where "synthesized S opts (snd stM) (snd vt) False r M1"
    and "variables_loop k S opts vs (variable_step (fst vt) r (fst stM), M1) = Inr (st', M')"
proof -
  from assms obtain r M1 where
    first: "getJSONSchemaFromGraphQLType k S opts (snd stM) (snd vt) False = Inr (r, M1)"
    and rest: "variables_loop k S opts vs (variable_step (fst vt) r (fst stM), M1) = Inr (st', M')"
    by (auto split: sum.splits)
  from run_synthesized(1) [OF first] rest show ?thesis by (rule that)
qed


lemma loop_marker:
  "variables_loop k S opts vs stM = Inr (st', M')
     \<Longrightarrow> fst ` set (definitions_of (fst stM)) = set (snd stM)
     \<Longrightarrow> distinct (map fst (definitions_of (fst stM))) \<Longrightarrow> distinct (snd stM)
     \<Longrightarrow> set (snd stM) \<subseteq> set M' \<and> fst ` set (definitions_of st') = set M'
         \<and> distinct (map fst (definitions_of st')) \<and> distinct M'"
proof (induction vs arbitrary: stM)
  case Nil
  then show ?case by auto
next
  case (Cons vt vs)
  from Cons.prems(1) obtain r M1 where
    first: "synthesized S opts (snd stM) (snd vt) False r M1"
    and rest: "variables_loop k S opts vs (variable_step (fst vt) r (fst stM), M1) = Inr (st', M')"
    by (rule variables_loop_Cons)
  from first have sub: "set (snd stM) \<subseteq> set M1" by (rule marker_grows)
  from definitions_keys(1) [OF first] Cons.prems(2) sub
  have a: "fst ` set (definitions_of (variable_step (fst vt) r (fst stM))) = set M1"
    by (auto simp: definitions_of_def keys_obj_spread)
  from Cons.prems(3)
  have b: "distinct (map fst (definitions_of (variable_step (fst vt) r (fst stM))))"
    by (simp add: definitions_of_def distinct_obj_spread)
  from marker_distinct(1) [OF first Cons.prems(4)] have c: "distinct M1" .
  from Cons.IH [OF rest] a b c sub show ?case by auto
qed




section \<open>References and markdown descriptions, fragment by fragment\<close>










section \<open>Null alternatives of fragments\<close>

lemma has_null_finish: "has_null_alternative (finish S opts t nn d) = has_null_alternative d"
  by (simp add: has_null_alternative_def map_of_finish)

lemma broaden_null:
  assumes "broaden d = Inr d'"
  shows "has_null_alternative d'"
proof (cases "array_of (map_of d ''type'')")
  case (Some ts)
  with assms have "d' = AList.update ''type'' (JArr (ts @ [JStr ''null''])) d"
    by (simp add: broaden_def)
  then show ?thesis by (simp add: has_null_alternative_def update_conv')
next
  case None
  show ?thesis
  proof (cases "prop_truthy d ''type''")
    case True
    with None assms have "d' = AList.update ''type'' (JArr [the (map_of d ''type''), JStr ''null'']) d"
      by (simp add: broaden_def)
    then show ?thesis by (simp add: has_null_alternative_def update_conv')
  next
    case False
    show ?thesis
    proof (cases "prop_truthy d ''oneOf''")
      case True
      with None False assms obtain alts where
        "d' = AList.update ''oneOf'' (JArr (alts @ [null_alternative])) d"
        by (auto simp: broaden_def split: option.splits)
      then show ?thesis by (simp add: has_null_alternative_def update_conv')
    next
      case no: False
      with None False assms have "d' = [(''oneOf'', JArr [JObj d, null_alternative])]"
        by (simp add: broaden_def)
      then show ?thesis by (simp add: has_null_alternative_def)
    qed
  qed
qed

lemma scalar_nullable:
  assumes "scalar_definition opts n False = Inr sd"
  shows "has_null_alternative sd"
proof (cases "scalarTypesMap n")
  case (Some tag)
  with assms show ?thesis
    by (auto simp: scalar_definition_def has_null_alternative_def split: if_splits)
next
  case None
  with assms show ?thesis
    by (auto simp: scalar_definition_def Let_def intro: broaden_null split: if_splits)
qed

lemma scalar_non_null:
  assumes sd: "scalar_definition opts n True = Inr sd"
    and ov: "\<forall>ov \<in> snd ` set (customScalarSchemas opts). \<not> has_null_alternative ov"
  shows "\<not> has_null_alternative sd"
proof (cases "scalarTypesMap n")
  case (Some tag)
  with sd show ?thesis
    by (auto simp: scalar_definition_def has_null_alternative_def split: if_splits)
next
  case None
  show ?thesis
  proof (cases "map_of (customScalarSchemas opts) n")
    case no: None
    with None sd show ?thesis
      by (auto simp: scalar_definition_def has_null_alternative_def split: if_splits)
  next
    case (Some o1)
    then have "(n, o1) \<in> set (customScalarSchemas opts)" by (rule map_of_SomeD)
    then have "o1 \<in> snd ` set (customScalarSchemas opts)" by force
    with ov have "\<not> has_null_alternative o1" by blast
    with None Some sd show ?thesis by (auto simp: scalar_definition_def split: if_splits)
  qed
qed

lemma non_null_context:
  "synthesized S opts M t nn r M'
     \<Longrightarrow> \<forall>ov \<in> snd ` set (customScalarSchemas opts). \<not> has_null_alternative ov
     \<Longrightarrow> nn \<Longrightarrow> \<not> has_null_alternative (res_definition r)"
  "fields_done S opts M fs acc acc' M' \<Longrightarrow> True"
proof (induction rule: synthesized_fields_done.inducts)
  case (s_enum M n d vs nn)
  then show ?case by (auto simp: map_of_finish has_null_alternative_def)
next
  case (s_scalar n nn sd M d)
  then show ?case using scalar_non_null [of opts n sd] by (simp add: has_null_finish)
next
  case (s_list M t r M' nn)
  then show ?case by (simp add: map_of_finish has_null_alternative_def)
next
  case (s_nonnull M t r M' nn)
  then show ?case by (simp add: has_null_finish)
next
  case (s_marked n M nn)
  then show ?case by (simp add: map_of_finish has_null_alternative_def object_reference_def)
next
  case (s_object n M props req defs M' nn)
  then show ?case by (simp add: map_of_finish has_null_alternative_def object_reference_def)
qed simp_all

lemma nullable_context:
  assumes "synthesized S opts M t False r M'" and "nullable t"
  shows "has_null_alternative (res_definition r)"
  using assms
proof (cases rule: synthesized.cases)
  case (s_scalar n sd d)
  then show ?thesis using scalar_nullable [of opts n sd] by (simp add: has_null_finish)
qed (auto simp: map_of_finish has_null_alternative_def object_reference_def)

section \<open>Reachable input objects are marked\<close>

lemma names_marked:
  "synthesized S opts M t nn r M'
     \<Longrightarrow> (\<forall>n. object_name t = Some n \<longrightarrow> n \<in> set M') \<and> closed_in S (set M' - set M) (set M')"
  "fields_done S opts M fs acc acc' M'
     \<Longrightarrow> (\<forall>f \<in> set fs. \<forall>n. object_name (ftype f) = Some n \<longrightarrow> n \<in> set M')
         \<and> closed_in S (set M' - set M) (set M')"
proof (induction rule: synthesized_fields_done.inducts)
  case (s_object n M props req defs M' nn)
  from s_object(2) have "set (M @ [n]) \<subseteq> set M'" by (rule marker_grows)
  then have n: "n \<in> set M'" by simp
  from s_object(3) have fs: "\<forall>f \<in> set (ofields (lookup_object S n)). \<forall>n'. object_name (ftype f) = Some n' \<longrightarrow> n' \<in> set M'"
    and cl: "closed_in S (set M' - set (M @ [n])) (set M')" by simp_all
  have "closed_in S (set M' - set M) (set M')"
    unfolding closed_in_def
  proof (intro ballI allI impI)
    fix m f n'
    assume m: "m \<in> set M' - set M" and f: "f \<in> set (ofields (lookup_object S m))"
      and n': "object_name (ftype f) = Some n'"
    show "n' \<in> set M'"
    proof (cases "m = n")
      case True
      with fs f n' show ?thesis by blast
    next
      case False
      with m have "m \<in> set M' - set (M @ [n])" by simp
      with cl f n' show ?thesis unfolding closed_in_def by blast
    qed
  qed
  with n show ?case by simp
next
  case (f_cons M f r M1 fs acc acc' M')
  from f_cons(1) have s1: "set M \<subseteq> set M1" by (rule marker_grows)
  from f_cons(3) have s2: "set M1 \<subseteq> set M'" by (rule marker_grows)
  from f_cons(2) have first: "\<forall>n. object_name (ftype f) = Some n \<longrightarrow> n \<in> set M1"
    and cl1: "closed_in S (set M1 - set M) (set M1)" by simp_all
  from f_cons(4) have rest: "\<forall>f \<in> set fs. \<forall>n. object_name (ftype f) = Some n \<longrightarrow> n \<in> set M'"
    and cl2: "closed_in S (set M' - set M1) (set M')" by simp_all
  have "closed_in S (set M' - set M) (set M')"
    unfolding closed_in_def
  proof (intro ballI allI impI)
    fix m g n'
    assume m: "m \<in> set M' - set M" and g: "g \<in> set (ofields (lookup_object S m))"
      and n': "object_name (ftype g) = Some n'"
    show "n' \<in> set M'"
    proof (cases "m \<in> set M1")
      case True
      with m have "m \<in> set M1 - set M" by simp
      with cl1 g n' have "n' \<in> set M1" unfolding closed_in_def by blast
      with s2 show ?thesis by blast
    next
      case False
      with m have "m \<in> set M' - set M1" by simp
      with cl2 g n' show ?thesis unfolding closed_in_def by blast
    qed
  qed
  moreover from first s2 have "\<forall>n. object_name (ftype f) = Some n \<longrightarrow> n \<in> set M'" by blast
  ultimately show ?case using rest by simp
qed (simp_all add: closed_in_def)

lemma loop_marker_grows:
  "variables_loop k S opts vs stM = Inr (st', M') \<Longrightarrow> set (snd stM) \<subseteq> set M'"
proof (induction vs arbitrary: stM)
  case Nil
  then show ?case by auto
next
  case (Cons vt vs)
  from Cons.prems(1) obtain r M1 where
    first: "synthesized S opts (snd stM) (snd vt) False r M1"
    and rest: "variables_loop k S opts vs (variable_step (fst vt) r (fst stM), M1) = Inr (st', M')"
    by (rule variables_loop_Cons)
  from first have "set (snd stM) \<subseteq> set M1" by (rule marker_grows)
  with Cons.IH [OF rest] show ?case by simp
qed

lemma loop_closed:
  "variables_loop k S opts vs stM = Inr (st', M')
     \<Longrightarrow> closed_in S (set (snd stM)) (set (snd stM))
     \<Longrightarrow> closed_in S (set M') (set M')
         \<and> (\<forall>vt \<in> set vs. \<forall>n. object_name (snd vt) = Some n \<longrightarrow> n \<in> set M')"
proof (induction vs arbitrary: stM)
  case Nil
  then show ?case by auto
next
  case (Cons vt vs)
  from Cons.prems(1) obtain r M1 where
    first: "synthesized S opts (snd stM) (snd vt) False r M1"
    and rest: "variables_loop k S opts vs (variable_step (fst vt) r (fst stM), M1) = Inr (st', M')"
    by (rule variables_loop_Cons)
  from first have sub: "set (snd stM) \<subseteq> set M1" by (rule marker_grows)
  from names_marked(1) [OF first]
  have nm: "\<forall>n. object_name (snd vt) = Some n \<longrightarrow> n \<in> set M1"
    and cl: "closed_in S (set M1 - set (snd stM)) (set M1)" by simp_all
  have c1: "closed_in S (set M1) (set M1)"
    unfolding closed_in_def
  proof (intro ballI allI impI)
    fix m g n'
    assume m: "m \<in> set M1" and g: "g \<in> set (ofields (lookup_object S m))"
      and n': "object_name (ftype g) = Some n'"
    show "n' \<in> set M1"
    proof (cases "m \<in> set (snd stM)")
      case True
      with Cons.prems(2) g n' have "n' \<in> set (snd stM)" unfolding closed_in_def by blast
      with sub show ?thesis by blast
    next
      case False
      with m have "m \<in> set M1 - set (snd stM)" by simp
      with cl g n' show ?thesis unfolding closed_in_def by blast
    qed
  qed
  from rest have "set (snd (variable_step (fst vt) r (fst stM), M1)) \<subseteq> set M'"
    using loop_marker_grows [OF rest] by simp
  then have s2: "set M1 \<subseteq> set M'" by simp
  from Cons.IH [OF rest] c1
  have "closed_in S (set M') (set M')"
    and "\<forall>vt \<in> set vs. \<forall>n. object_name (snd vt) = Some n \<longrightarrow> n \<in> set M'" by simp_all
  with nm s2 show ?case by auto
qed

lemma reachable_marked:
  assumes "closed_in S N N"
    and "\<forall>vt \<in> set vars. \<forall>n. object_name (snd vt) = Some n \<longrightarrow> n \<in> N"
  shows "reachable S vars n \<Longrightarrow> n \<in> N"
proof (induction rule: reachable.induct)
  case (r_variable vt n)
  with assms(2) show ?case by blast
next
  case (r_field m f n)
  with assms(1) show ?case unfolding closed_in_def by blast
qed

lemma distinct_count_list: "distinct xs \<Longrightarrow> x \<in> set xs \<Longrightarrow> count_list xs x = 1"
  by (induction xs) (auto simp: count_list_0_iff)

lemma filter_keys_count: "length (filter (\<lambda>kv. fst kv = n) d) = count_list (map fst d) n"
  by (induction d) auto

lemma reachable_variable: "reachable S vars n \<Longrightarrow> vars \<noteq> []"
  by (induction rule: reachable.induct) auto

section \<open>Scenarios\<close>

text \<open>
  C5. For the variable map with the single entry \<open>id\<close> of type \<open>ID!\<close>, the returned
  document has the property \<open>id\<close> equal to \<^verbatim>\<open>{"type":"string","description":"ID!"}\<close>
  and the required list \<^verbatim>\<open>["id"]\<close>. This holds for every schema, every description
  of the scalar and every options value without markdown descriptions (the default),
  with any fuel from 2 on.
\<close>

theorem C5_id_scenario:
  assumes "\<not> useMarkdownDescription opts"
  shows "at_path [''properties'', ''id'']
           (getVariablesJSONSchema (Suc (Suc k)) S [(''id'', NonNull (Scalar ''ID'' d))] opts)
         = Some (JObj [(''type'', JStr ''string''), (''description'', JStr ''ID!'')])
     \<and> at_path [''required'']
           (getVariablesJSONSchema (Suc (Suc k)) S [(''id'', NonNull (Scalar ''ID'' d))] opts)
         = Some (JArr [JStr ''id''])"
  using assms by (simp add: model_defs)

theorem C5_id_scenario_witness:
  "\<not> useMarkdownDescription defaultJSONSchemaOptions
   \<and> at_path [''properties'', ''id'']
       (getVariablesJSONSchema 2 [] [(''id'', NonNull (Scalar ''ID'' None))] defaultJSONSchemaOptions)
     = Some (JObj [(''type'', JStr ''string''), (''description'', JStr ''ID!'')])
   \<and> at_path [''required'']
       (getVariablesJSONSchema 2 [] [(''id'', NonNull (Scalar ''ID'' None))] defaultJSONSchemaOptions)
     = Some (JArr [JStr ''id''])"
  using C5_id_scenario [of defaultJSONSchemaOptions 0 "[]" None]
  by (simp add: defaultJSONSchemaOptions_def numeral_2_eq_2)

text \<open>
  C7, as stated, fails: the nullable occurrence of the custom scalar \<open>JSON\<close> without
  override is not the fragment with the \<open>type\<close> member alone, because the description
  backfill (line 332) adds the rendered type as description.
\<close>

theorem C7_counterexample:
  "getJSONSchemaFromGraphQLType 1 [] defaultJSONSchemaOptions [] (Scalar ''JSON'' None) False =
     Inr (\<lparr>res_definition =
             [(''type'', JArr [JStr ''string'', JStr ''number'', JStr ''boolean'',
                               JStr ''integer'', JStr ''null'']),
              (''description'', JStr ''JSON'')],
           res_required = False, res_definitions = []\<rparr>, [])
   \<and> [(''type'', JArr [JStr ''string'', JStr ''number'', JStr ''boolean'',
                       JStr ''integer'', JStr ''null'']),
      (''description'', JStr ''JSON'')]
     \<noteq> [(''type'', JArr [JStr ''string'', JStr ''number'', JStr ''boolean'',
                          JStr ''integer'', JStr ''null''])]"
  by (simp add: model_defs defaultJSONSchemaOptions_def)

text \<open>
  C7, amended. For a custom scalar named \<open>JSON\<close> without an entry in
  \<open>customScalarSchemas\<close>, a nullable occurrence synthesizes the fragment with the
  five type tags and the description \<open>JSON\<close>, followed by the fenced markdown
  description when \<open>useMarkdownDescription\<close> is on.
\<close>

theorem C7_custom_scalar:
  assumes "map_of (customScalarSchemas opts) ''JSON'' = None"
  shows "getJSONSchemaFromGraphQLType (Suc k) S opts M (Scalar ''JSON'' d) False =
     Inr (\<lparr>res_definition =
             [(''type'', JArr [JStr ''string'', JStr ''number'', JStr ''boolean'',
                               JStr ''integer'', JStr ''null'']),
              (''description'', JStr ''JSON'')]
             @ (if useMarkdownDescription opts
                then [(''markdownDescription'', JStr (''```graphql'' @ nl @ ''JSON'' @ nl @ ''```''))]
                else []),
           res_required = False, res_definitions = []\<rparr>, M)"
  using assms by (simp add: model_defs)

theorem C7_custom_scalar_witness:
  "map_of (customScalarSchemas defaultJSONSchemaOptions) ''JSON'' = None
   \<and> getJSONSchemaFromGraphQLType 1 [] defaultJSONSchemaOptions [] (Scalar ''JSON'' None) False =
     Inr (\<lparr>res_definition =
             [(''type'', JArr [JStr ''string'', JStr ''number'', JStr ''boolean'',
                               JStr ''integer'', JStr ''null'']),
              (''description'', JStr ''JSON'')],
           res_required = False, res_definitions = []\<rparr>, [])"
  using C7_custom_scalar [of defaultJSONSchemaOptions 0 "[]" "[]" None]
  by (simp add: defaultJSONSchemaOptions_def)

text \<open>
  C6, as stated, fails: in the definition of \<open>Filter\<close> the property \<open>self\<close> is not the
  \<open>oneOf\<close> member alone, because line 280 always sets the property's description.
\<close>

theorem C6_counterexample:
  "at_path [''definitions'', ''Filter'', ''properties'', ''self'']
     (getVariablesJSONSchema 3 filter_schema [(''f'', InputObject ''Filter'')] defaultJSONSchemaOptions)
   = Some (JObj [(''oneOf'', JArr [JObj [(''$ref'', JStr ''#/definitions/Filter'')],
                                   JObj [(''type'', JStr ''null'')]]),
                 (''description'', JStr ''Filter'')])
   \<and> JObj [(''oneOf'', JArr [JObj [(''$ref'', JStr ''#/definitions/Filter'')],
                             JObj [(''type'', JStr ''null'')]]),
           (''description'', JStr ''Filter'')]
     \<noteq> JObj [(''oneOf'', JArr [JObj [(''$ref'', JStr ''#/definitions/Filter'')],
                                JObj [(''type'', JStr ''null'')]])]"
  by (simp add: model_defs defaultJSONSchemaOptions_def filter_schema_def numeral_3_eq_3)

text \<open>
  C6, amended. For the self-referential input object \<open>Filter\<close> with the single
  nullable field \<open>self\<close> of type \<open>Filter\<close>, the document has exactly one definition,
  the one of \<open>Filter\<close>, and its property \<open>self\<close> is the \<open>oneOf\<close> of the reference and
  the null alternative together with the description \<open>Filter\<close> (and the fenced markdown
  description when \<open>useMarkdownDescription\<close> is on). Any fuel from 2 on, any options.
\<close>

theorem C6_recursive_filter:
  "(\<exists>fd. at_path [''definitions'']
            (getVariablesJSONSchema (Suc (Suc k)) filter_schema [(v, InputObject ''Filter'')] opts)
          = Some (JObj [(''Filter'', JObj fd)]))
   \<and> at_path [''definitions'', ''Filter'', ''properties'', ''self'']
       (getVariablesJSONSchema (Suc (Suc k)) filter_schema [(v, InputObject ''Filter'')] opts)
     = Some (JObj
          ([(''oneOf'', JArr [JObj [(''$ref'', JStr ''#/definitions/Filter'')],
                              JObj [(''type'', JStr ''null'')]]),
            (''description'', JStr ''Filter'')]
           @ (if useMarkdownDescription opts
              then [(''markdownDescription'', JStr (''```graphql'' @ nl @ ''Filter'' @ nl @ ''```''))]
              else [])))"
  by (simp add: model_defs filter_schema_def)

text \<open>
  C4, as stated, fails: line 405 tests the returned \<^verbatim>\<open>definitions\<close> object, which is
  always an object, so one variable of type \<open>ID!\<close> already gives the document an empty
  \<^verbatim>\<open>definitions\<close> member.
\<close>

theorem C4_counterexample:
  "at_path [''definitions'']
     (getVariablesJSONSchema 2 [] [(''id'', NonNull (Scalar ''ID'' None))] defaultJSONSchemaOptions)
   = Some (JObj [])"
  by (simp add: model_defs defaultJSONSchemaOptions_def numeral_2_eq_2)

text \<open>
  C4, amended. The \<^verbatim>\<open>definitions\<close> key is present in the returned document exactly
  when the variable map has at least one entry, whether or not a definition was
  registered.
\<close>

theorem C4_definitions_key:
  assumes "getVariablesJSONSchema k S vars opts = Inr doc"
  shows "(map_of doc ''definitions'' = None) = (vars = [])"
proof -
  from assms obtain st M where
    run: "variables_loop k S opts vars initial_state = Inr (st, M)" and doc: "doc = document st"
    by (auto simp: getVariablesJSONSchema_def split: sum.splits)
  from variables_loop_definitions [OF run]
  have "(snd (snd st) = None) = (vars = [])" by (simp add: initial_state_def)
  moreover have "(map_of (document st) ''definitions'' = None) = (snd (snd st) = None)"
    by (cases st) (auto simp: document_def split: option.splits)
  ultimately show ?thesis using doc by simp
qed

theorem C4_definitions_key_witness:
  "getVariablesJSONSchema 1 [] [] defaultJSONSchemaOptions
     = Inr [(''$schema'', JStr ''https://json-schema.org/draft/2020-12/schema''),
            (''type'', JStr ''object''), (''properties'', JObj []), (''required'', JArr [])]
   \<and> map_of [(''$schema'', JStr ''https://json-schema.org/draft/2020-12/schema''),
            (''type'', JStr ''object''), (''properties'', JObj []), (''required'', JArr [])]
        ''definitions'' = None"
proof -
  have run: "getVariablesJSONSchema 1 [] [] defaultJSONSchemaOptions
     = Inr [(''$schema'', JStr ''https://json-schema.org/draft/2020-12/schema''),
            (''type'', JStr ''object''), (''properties'', JObj []), (''required'', JArr [])]"
    by (simp add: getVariablesJSONSchema_def initial_state_def document_def)
  from C4_definitions_key [OF run] run show ?thesis by simp
qed

section \<open>References\<close>




section \<open>Markdown descriptions\<close>




section \<open>Definitions are written once\<close>

text \<open>
  C2. In one run of \<^verbatim>\<open>getVariablesJSONSchema\<close>, every input-object name reachable from
  the variable map, through list and non-null wrappers and through the fields of
  reachable input objects (so also through cycles), occurs exactly once in the marker,
  whose elements record the calls of \<open>mark\<close> that returned true and that alone lead to
  the write of line 302; and the \<^verbatim>\<open>definitions\<close> member of the returned document has
  exactly one entry under that name.
\<close>

theorem C2_defined_once:
  assumes "variables_loop k S opts vars initial_state = Inr (st, M)"
    and "reachable S vars n"
  shows "count_list M n = 1
     \<and> getVariablesJSONSchema k S vars opts = Inr (document st)
     \<and> map_of (document st) ''definitions'' = Some (JObj (definitions_of st))
     \<and> length (filter (\<lambda>kv. fst kv = n) (definitions_of st)) = 1"
proof -
  note run = assms(1)
  from loop_closed [OF run]
  have "closed_in S (set M) (set M)"
    and "\<forall>vt \<in> set vars. \<forall>n. object_name (snd vt) = Some n \<longrightarrow> n \<in> set M"
    by (simp_all add: initial_state_def closed_in_def)
  then have n: "n \<in> set M" using assms(2) by (rule reachable_marked)
  from loop_marker [OF run]
  have keys: "fst ` set (definitions_of st) = set M"
    and dk: "distinct (map fst (definitions_of st))" and dm: "distinct M"
    by (simp_all add: initial_state_def definitions_of_def)
  from dm n have c1: "count_list M n = 1" by (rule distinct_count_list)
  from keys n have "n \<in> set (map fst (definitions_of st))" by simp
  with dk have "count_list (map fst (definitions_of st)) n = 1" by (rule distinct_count_list)
  then have c4: "length (filter (\<lambda>kv. fst kv = n) (definitions_of st)) = 1"
    by (simp add: filter_keys_count)
  from run have c2: "getVariablesJSONSchema k S vars opts = Inr (document st)"
    by (simp add: getVariablesJSONSchema_def)
  from assms(2) have "vars \<noteq> []" by (rule reachable_variable)
  with variables_loop_definitions [OF run] have "snd (snd st) \<noteq> None"
    by (simp add: initial_state_def)
  then have c3: "map_of (document st) ''definitions'' = Some (JObj (definitions_of st))"
    by (cases st) (auto simp: document_def definitions_of_def)
  from c1 c2 c3 c4 show ?thesis by simp
qed

theorem C2_defined_once_witness:
  "variables_loop 3 filter_schema defaultJSONSchemaOptions [(''f'', InputObject ''Filter'')] initial_state
     = Inr (filter_state, [''Filter''])
   \<and> reachable filter_schema [(''f'', InputObject ''Filter'')] ''Filter''
   \<and> count_list [''Filter''] ''Filter'' = 1
   \<and> length (filter (\<lambda>kv. fst kv = ''Filter'') (definitions_of filter_state)) = 1"
proof -
  have run: "variables_loop 3 filter_schema defaultJSONSchemaOptions [(''f'', InputObject ''Filter'')]
      initial_state = Inr (filter_state, [''Filter''])"
    by (simp add: model_defs defaultJSONSchemaOptions_def filter_schema_def numeral_3_eq_3
        filter_state_def)
  have "(''f'', InputObject ''Filter'') \<in> set [(''f'', InputObject ''Filter'')]" by simp
  then have reach: "reachable filter_schema [(''f'', InputObject ''Filter'')] ''Filter''"
    by (rule r_variable) simp
  from C2_defined_once [OF run reach] run reach show ?thesis by simp
qed

section \<open>Nullability\<close>

text \<open>
  C3, as stated, fails: in a forced non-null context a custom scalar takes its
  override as it is (lines 164 to 168 and 172), so an override that allows \<^verbatim>\<open>null\<close>
  gives a fragment with a null alternative.
\<close>

theorem C3_counterexample:
  "getJSONSchemaFromGraphQLType 1 [] null_options [] (Scalar ''JSON'' None) True
     = Inr (\<lparr>res_definition = [(''type'', JArr [JStr ''object'', JStr ''null''])],
             res_required = False, res_definitions = []\<rparr>, [])
   \<and> has_null_alternative [(''type'', JArr [JStr ''object'', JStr ''null''])]"
  by (simp add: model_defs null_options_def has_null_alternative_def)

text \<open>
  C3, amended. When no custom scalar override has a null alternative of its own, the
  fragment of every occurrence synthesized in a forced non-null context has no null
  alternative (no \<^verbatim>\<open>null\<close> among the type tags, none among the enum values, no
  \<^verbatim>\<open>{type: 'null'}\<close> branch of \<^verbatim>\<open>oneOf\<close>); and the fragment of every occurrence, in a
  nullable context, of a type that is not itself a non-null wrapper has one.
\<close>

theorem C3_null_alternatives:
  assumes "getJSONSchemaFromGraphQLType k S opts M t nn = Inr (r, M')"
    and "\<forall>ov \<in> snd ` set (customScalarSchemas opts). \<not> has_null_alternative ov"
  shows "(nn \<longrightarrow> \<not> has_null_alternative (res_definition r))
     \<and> (\<not> nn \<and> nullable t \<longrightarrow> has_null_alternative (res_definition r))"
proof -
  from assms(1) have s: "synthesized S opts M t nn r M'" by (rule run_synthesized(1))
  from non_null_context(1) [OF s assms(2)] nullable_context [of S opts M t r M'] s
  show ?thesis by (cases nn) auto
qed

theorem C3_null_alternatives_witness:
  "getJSONSchemaFromGraphQLType 1 [] defaultJSONSchemaOptions [] (Scalar ''ID'' None) True
     = Inr (\<lparr>res_definition = [(''type'', JStr ''string'')],
             res_required = False, res_definitions = []\<rparr>, [])
   \<and> getJSONSchemaFromGraphQLType 1 [] defaultJSONSchemaOptions [] (Scalar ''ID'' None) False
     = Inr (\<lparr>res_definition = [(''type'', JArr [JStr ''string'', JStr ''null'']),
                               (''description'', JStr ''ID'')],
             res_required = False, res_definitions = []\<rparr>, [])
   \<and> customScalarSchemas defaultJSONSchemaOptions = []
   \<and> nullable (Scalar ''ID'' None)
   \<and> \<not> has_null_alternative [(''type'', JStr ''string'')]
   \<and> has_null_alternative [(''type'', JArr [JStr ''string'', JStr ''null'']), (''description'', JStr ''ID'')]"
proof -
  have a: "getJSONSchemaFromGraphQLType 1 [] defaultJSONSchemaOptions [] (Scalar ''ID'' None) True
     = Inr (\<lparr>res_definition = [(''type'', JStr ''string'')],
             res_required = False, res_definitions = []\<rparr>, [])"
    by (simp add: model_defs defaultJSONSchemaOptions_def)
  have b: "getJSONSchemaFromGraphQLType 1 [] defaultJSONSchemaOptions [] (Scalar ''ID'' None) False
     = Inr (\<lparr>res_definition = [(''type'', JArr [JStr ''string'', JStr ''null'']),
                               (''description'', JStr ''ID'')],
             res_required = False, res_definitions = []\<rparr>, [])"
    by (simp add: model_defs defaultJSONSchemaOptions_def)
  have ov: "\<forall>ov \<in> snd ` set (customScalarSchemas defaultJSONSchemaOptions). \<not> has_null_alternative ov"
    by (simp add: defaultJSONSchemaOptions_def)
  from C3_null_alternatives [OF a ov] C3_null_alternatives [OF b ov] a b show ?thesis
    by (simp add: defaultJSONSchemaOptions_def)
qed

section \<open>Lists\<close>

text \<open>
  C10. When the fragment synthesized for the element type of a list has a \<^verbatim>\<open>$ref\<close>
  (a truthy one, as line 199 tests it), the item schema is the object with that
  \<^verbatim>\<open>$ref\<close> alone; when it has none but has a \<^verbatim>\<open>oneOf\<close> (line 201), the item schema
  is the object with that \<^verbatim>\<open>oneOf\<close> alone. So the description, markdown description and
  default of the element's fragment are absent from the item schema. This holds in
  both nullability contexts of the list.
\<close>

theorem C10_list_items:
  assumes "getJSONSchemaFromGraphQLType k S opts M t False = Inr (ri, Mi)"
  shows "\<exists>r. getJSONSchemaFromGraphQLType (Suc k) S opts M (ListT t) nn = Inr (r, Mi)
     \<and> (\<forall>v. map_of (res_definition ri) ''$ref'' = Some v \<and> truthy v
            \<longrightarrow> map_of (res_definition r) ''items'' = Some (JObj [(''$ref'', v)]))
     \<and> (\<forall>w. \<not> prop_truthy (res_definition ri) ''$ref''
              \<and> map_of (res_definition ri) ''oneOf'' = Some w \<and> truthy w
            \<longrightarrow> map_of (res_definition r) ''items'' = Some (JObj [(''oneOf'', w)]))"
  using assms
  by (auto simp: list_result_def Let_def map_of_finish update_conv' list_items_def prop_truthy_def)

theorem C10_list_items_witness:
  "getJSONSchemaFromGraphQLType 2 [] defaultJSONSchemaOptions [] (NonNull (InputObject ''A'')) False
     = Inr (\<lparr>res_definition = [(''$ref'', JStr ''#/definitions/A''), (''description'', JStr ''A!'')],
             res_required = True,
             res_definitions =
               [(''A'', JObj [(''type'', JStr ''object''), (''properties'', JObj []),
                              (''required'', JArr []), (''description'', JStr ''A'')])]\<rparr>,
            [''A''])
   \<and> (\<exists>r. getJSONSchemaFromGraphQLType 3 [] defaultJSONSchemaOptions []
              (ListT (NonNull (InputObject ''A''))) False = Inr (r, [''A''])
         \<and> map_of (res_definition r) ''items'' = Some (JObj [(''$ref'', JStr ''#/definitions/A'')]))"
proof -
  have run: "getJSONSchemaFromGraphQLType 2 [] defaultJSONSchemaOptions [] (NonNull (InputObject ''A'')) False
     = Inr (\<lparr>res_definition = [(''$ref'', JStr ''#/definitions/A''), (''description'', JStr ''A!'')],
             res_required = True,
             res_definitions =
               [(''A'', JObj [(''type'', JStr ''object''), (''properties'', JObj []),
                              (''required'', JArr []), (''description'', JStr ''A'')])]\<rparr>,
            [''A''])"
    by (simp add: model_defs defaultJSONSchemaOptions_def numeral_2_eq_2)
  from C10_list_items [OF run, of False] obtain r where
    "getJSONSchemaFromGraphQLType (Suc 2) [] defaultJSONSchemaOptions []
       (ListT (NonNull (InputObject ''A''))) False = Inr (r, [''A''])"
    and "map_of (res_definition r) ''items'' = Some (JObj [(''$ref'', JStr ''#/definitions/A'')])"
    by auto
  with run show ?thesis by (auto simp: numeral_3_eq_3 numeral_2_eq_2)
qed

section \<open>Termination\<close>

text \<open>
  C9. \<^verbatim>\<open>getJSONSchemaFromGraphQLType\<close> terminates for every schema, cyclic or not: with
  the fuel \<open>enough S M t\<close> (the wrappers of the type, and the deepest field type once for
  every name of the schema that is not marked yet) the run does not stop for lack of
  fuel, and so does the whole of \<^verbatim>\<open>getVariablesJSONSchema\<close> with \<open>enough_for S vars\<close>.
  For a name that is marked already, fuel 1, which admits no nested call, gives the
  result: the reference fragment, no definitions, the marker unchanged. A run that has
  fuel ends with a result, or with the \<^verbatim>\<open>TypeError\<close> of line 178 when an override has
  a truthy \<^verbatim>\<open>oneOf\<close> that is no array (lemma \<open>no_type_error\<close>), or with a scalar
  named like an inherited member of the table.
\<close>

theorem C9_terminates:
  "(enough S M t \<le> k \<longrightarrow> getJSONSchemaFromGraphQLType k S opts M t nn \<noteq> Inl OutOfFuel)
   \<and> (enough_for S vars \<le> k \<longrightarrow> getVariablesJSONSchema k S vars opts \<noteq> Inl OutOfFuel)
   \<and> (n \<in> set M \<longrightarrow>
        getJSONSchemaFromGraphQLType 1 S opts M (InputObject n) nn = Inr (marked_result S opts n nn, M)
        \<and> res_definitions (marked_result S opts n nn) = []
        \<and> res_definition (marked_result S opts n nn)
            = finish S opts (InputObject n) nn (object_reference n nn))"
  using enough_fuel(1) [of S M t k opts nn] document_fuel [of S vars k opts]
  by (simp add: mark_def marked_result_def)

theorem C9_terminates_witness:
  "enough filter_schema [] (InputObject ''Filter'') \<le> 2
   \<and> getJSONSchemaFromGraphQLType 2 filter_schema defaultJSONSchemaOptions [] (InputObject ''Filter'') False \<noteq> Inl OutOfFuel
   \<and> enough_for filter_schema [(''f'', InputObject ''Filter'')] \<le> 2
   \<and> getVariablesJSONSchema 2 filter_schema [(''f'', InputObject ''Filter'')] defaultJSONSchemaOptions \<noteq> Inl OutOfFuel
   \<and> ''Filter'' \<in> set [''Filter'']
   \<and> getJSONSchemaFromGraphQLType 1 filter_schema defaultJSONSchemaOptions [''Filter''] (InputObject ''Filter'') False
       = Inr (marked_result filter_schema defaultJSONSchemaOptions ''Filter'' False, [''Filter''])"
  using C9_terminates [of filter_schema "[]" "InputObject ''Filter''" 2 defaultJSONSchemaOptions False
          "[(''f'', InputObject ''Filter'')]" "''Filter''"]
    C9_terminates [of filter_schema "[''Filter'']" "InputObject ''Filter''" 2 defaultJSONSchemaOptions False
          "[(''f'', InputObject ''Filter'')]" "''Filter''"]
  by (simp add: enough_def enough_for_def field_depth_def unmarked_def filter_schema_def)

end
